theory Spec2Isabelle
  imports Complex_Main "HOL-Library.Word"
begin

section \<open>fabric-director: data model\<close>

text \<open>
  The embedding follows \<^verbatim>\<open>main.go\<close>. Go \<^verbatim>\<open>error\<close> values are
  represented by their message; \<^verbatim>\<open>time.Duration\<close> is a number of nanoseconds;
  \<^verbatim>\<open>float64\<close> values are only compared and stored, and are represented by reals.
  Debug and Info log lines influence nothing and are left out; Warn and Error lines are kept.
\<close>

type_synonym errmsg = string
type_synonym Duration = int

definition Millisecond :: Duration where
  "Millisecond = 1000000"

text \<open>\<^verbatim>\<open>type Node struct { ID uint8; IP string; Latency time.Duration }\<close>\<close>

record Node =
  ID :: "8 word"
  IP :: string
  Latency :: Duration

text \<open>The zero value of \<^verbatim>\<open>Node\<close>, which a Go map yields for a key it does not hold.\<close>

definition zeroNode :: Node where
  "zeroNode = \<lparr>ID = 0, IP = [], Latency = 0\<rparr>"

record Config =
  LocalID :: "8 word"
  Prefix4 :: string
  Prefix6 :: string
  PingInterval :: Duration
  LatencyThreshold :: Duration
  LossThreshold :: real
  Listen :: string
  Prefixes :: "string list"
  Nodes :: "string \<rightharpoonup> Node"

subsection \<open>The libraries and the kernel\<close>

text \<open>
  \<^verbatim>\<open>net.IP\<close> and \<^verbatim>\<open>net.IPNet\<close>: an address keeps its text and the
  family that \<^verbatim>\<open>To4()\<close> reports.
\<close>

datatype ipaddr = IPv4 string | IPv6 string

fun To4 :: "ipaddr \<Rightarrow> bool" where
  "To4 (IPv4 a) = True"
| "To4 (IPv6 a) = False"

record IPNet =
  NetIP :: ipaddr
  Mask :: nat

text \<open>\<^verbatim>\<open>netlink.Route\<close>, with the fields the program sets. \<^verbatim>\<open>SCOPE_UNIVERSE\<close> is 0.\<close>

record Route =
  Dst :: IPNet
  Gw :: "ipaddr option"
  Priority :: nat
  Scope :: nat

definition SCOPE_UNIVERSE :: nat where
  "SCOPE_UNIVERSE = 0"

text \<open>The requests that change the system, as the program issues them.\<close>

datatype sysop =
  OpLinkDel string
| OpNetSh
| OpRouteAdd Route
| OpRouteDel Route

text \<open>
  The program's surroundings: the parsers of package \<^verbatim>\<open>net\<close>, the netlink requests
  and the script \<^verbatim>\<open>/opt/packetframe/net.sh\<close>. They are no part of the repository, so
  they are parameters; \<open>'s\<close> is the state of the system they act on. A request returns
  its error, if any, and the state it leaves.
\<close>

record 's env =
  ParseCIDR :: "string \<Rightarrow> errmsg + IPNet"
  ParseIP :: "string \<Rightarrow> ipaddr option"
  LinkList :: "'s \<Rightarrow> errmsg + string list"
  LinkDel :: "string \<Rightarrow> 's \<Rightarrow> errmsg option \<times> 's"
  NetSh :: "'s \<Rightarrow> errmsg option \<times> 's"
  RouteAdd :: "Route \<Rightarrow> 's \<Rightarrow> errmsg option \<times> 's"
  RouteDel :: "Route \<Rightarrow> 's \<Rightarrow> errmsg option \<times> 's"

fun sys :: "'s env \<Rightarrow> sysop \<Rightarrow> 's \<Rightarrow> errmsg option \<times> 's" where
  "sys E (OpLinkDel name) k = LinkDel E name k"
| "sys E OpNetSh k = NetSh E k"
| "sys E (OpRouteAdd r) k = RouteAdd E r k"
| "sys E (OpRouteDel r) k = RouteDel E r k"

subsection \<open>The state of the process\<close>

datatype level = Warn | Error

text \<open>
  The package-level variables (\<^verbatim>\<open>candidateNodes\<close> and the three gauges), the system the
  process acts on, the log, and the sequence of requests issued so far with the outcome of each:
  the last is what the ordering properties are stated on.
\<close>

record 's world =
  kernel :: 's
  candidateNodes :: "string \<rightharpoonup> Node"
  metricIsRerouting :: real
  metricCandidateNodes :: real
  metricNodeLatency :: "(string \<times> string) \<rightharpoonup> real"
  logs :: "(level \<times> string) list"
  syscalls :: "(sysop \<times> errmsg option) list"

definition call :: "'s env \<Rightarrow> sysop \<Rightarrow> 's world \<Rightarrow> errmsg option \<times> 's world" where
  "call E op w =
     (case sys E op (kernel w) of
        (err, k) \<Rightarrow> (err, w\<lparr>kernel := k, syscalls := syscalls w @ [(op, err)]\<rparr>))"

section \<open>The functions of main.go\<close>

subsection \<open>internalIP\<close>

text \<open>\<^verbatim>\<open>%d\<close> of \<^verbatim>\<open>fmt.Sprintf\<close>: the decimal digits of a number.\<close>

fun dec :: "nat \<Rightarrow> string" where
  "dec n = (if n < 10 then [''0123456789'' ! n]
            else dec (n div 10) @ [''0123456789'' ! (n mod 10)])"

declare dec.simps [simp del]

definition internalIP :: "string \<Rightarrow> 8 word \<Rightarrow> 8 word \<Rightarrow> string" where
  "internalIP prefix node mask' =
     (let out = prefix @ dec (unat node)
      in if mask' \<noteq> 0 then out @ ''/'' @ dec (unat mask') else out)"

subsection \<open>addRoute, setPFNet, setReroute\<close>

definition addRoute :: "'s env \<Rightarrow> string \<Rightarrow> string \<Rightarrow> string \<Rightarrow> 's world \<Rightarrow> errmsg option \<times> 's world" where
  "addRoute E prefix nexthop4 nexthop6 w =
     (case ParseCIDR E prefix of
        Inl err \<Rightarrow> (Some err, w)
      | Inr ipNet \<Rightarrow>
          (let nexthop = (if To4 (NetIP ipNet) then nexthop4 else nexthop6)
           in call E (OpRouteAdd \<lparr>Dst = ipNet, Gw = ParseIP E nexthop, Priority = 1,
                                  Scope = SCOPE_UNIVERSE\<rparr>) w))"

definition setPFNet :: "'s env \<Rightarrow> bool \<Rightarrow> 's world \<Rightarrow> errmsg option \<times> 's world" where
  "setPFNet E state w =
     (if state then call E OpNetSh w else call E (OpLinkDel ''local'') w)"

text \<open>The two loops of \<^verbatim>\<open>setReroute\<close>; each returns at the first error.\<close>

fun addRoutes :: "'s env \<Rightarrow> string list \<Rightarrow> string \<Rightarrow> string \<Rightarrow> 's world \<Rightarrow> errmsg option \<times> 's world" where
  "addRoutes E [] nexthop4 nexthop6 w = (None, w)"
| "addRoutes E (prefix # rest) nexthop4 nexthop6 w =
     (case addRoute E prefix nexthop4 nexthop6 w of
        (Some err, w') \<Rightarrow> (Some err, w')
      | (None, w') \<Rightarrow> addRoutes E rest nexthop4 nexthop6 w')"

definition delRoute :: "'s env \<Rightarrow> string \<Rightarrow> 's world \<Rightarrow> errmsg option \<times> 's world" where
  "delRoute E prefix w =
     (case ParseCIDR E prefix of
        Inl err \<Rightarrow> (Some err, w)
      | Inr ipNet \<Rightarrow>
          call E (OpRouteDel \<lparr>Dst = ipNet, Gw = None, Priority = 0, Scope = SCOPE_UNIVERSE\<rparr>) w)"

fun delRoutes :: "'s env \<Rightarrow> string list \<Rightarrow> 's world \<Rightarrow> errmsg option \<times> 's world" where
  "delRoutes E [] w = (None, w)"
| "delRoutes E (prefix # rest) w =
     (case delRoute E prefix w of
        (Some err, w') \<Rightarrow> (Some err, w')
      | (None, w') \<Rightarrow> delRoutes E rest w')"

definition setReroute :: "'s env \<Rightarrow> bool \<Rightarrow> string list \<Rightarrow> string \<Rightarrow> string \<Rightarrow> 's world \<Rightarrow> errmsg option \<times> 's world" where
  "setReroute E reroute prefixes nexthop4 nexthop6 w =
     (if reroute then
        (case setPFNet E False (w\<lparr>metricIsRerouting := 1\<rparr>) of
           (Some err, w1) \<Rightarrow> (Some err, w1)
         | (None, w1) \<Rightarrow> addRoutes E prefixes nexthop4 nexthop6 w1)
      else
        (case delRoutes E prefixes w of
           (Some err, w1) \<Rightarrow> (Some err, w1)
         | (None, w1) \<Rightarrow>
             (case setPFNet E True w1 of
                (Some err, w2) \<Rightarrow> (Some err, w2)
              | (None, w2) \<Rightarrow> (None, w2\<lparr>metricIsRerouting := 0\<rparr>))))"

subsection \<open>closestNode\<close>

text \<open>
  A \<^verbatim>\<open>range\<close> over a Go map visits the keys in an order the language leaves open, so
  the order is a parameter: \<open>rangeOf m order\<close> are the entries of \<open>m\<close> as a loop meets
  them when it visits the keys in \<open>order\<close>.
\<close>

definition rangeOf :: "('k \<rightharpoonup> 'v) \<Rightarrow> 'k list \<Rightarrow> ('k \<times> 'v) list" where
  "rangeOf m order = concat (map (\<lambda>k. case m k of None \<Rightarrow> [] | Some v \<Rightarrow> [(k, v)]) order)"

text \<open>
  \<^verbatim>\<open>closest = &node\<close> takes the address of the range variable. Which variable that is
  depends on the language version named in \<^verbatim>\<open>go.mod\<close>, which is not among the sources:
  before Go 1.22 a loop has one \<^verbatim>\<open>node\<close>, assigned anew in every iteration, so a non-nil
  \<^verbatim>\<open>closest\<close> always reads the entry being visited; from Go 1.22 on every iteration has
  a \<^verbatim>\<open>node\<close> of its own. The accumulator holds what \<^verbatim>\<open>closest\<close> points to
  (\<open>None\<close> for nil) and \<^verbatim>\<open>closestName\<close>.
\<close>

datatype rangevar = PerLoop | PerIteration

fun closestLoop :: "rangevar \<Rightarrow> (string \<times> Node) list \<Rightarrow> Node option \<times> string \<Rightarrow> Node option \<times> string" where
  "closestLoop rv [] acc = acc"
| "closestLoop rv ((name, node) # rest) (closest, closestName) =
     (let seen = (case rv of PerLoop \<Rightarrow> map_option (\<lambda>_. node) closest | PerIteration \<Rightarrow> closest)
      in closestLoop rv rest
           (case seen of
              None \<Rightarrow> (Some node, name)
            | Some c \<Rightarrow> if Latency node < Latency c then (Some node, name) else (seen, closestName)))"

definition closestNode :: "rangevar \<Rightarrow> string list \<Rightarrow> 's world \<Rightarrow> Node option \<times> string" where
  "closestNode rv order w = closestLoop rv (rangeOf (candidateNodes w) order) (None, [])"

subsection \<open>teardownGRE\<close>

definition HasPrefix :: "string \<Rightarrow> string \<Rightarrow> bool" where
  "HasPrefix s p = (take (length p) s = p)"

fun delLinks :: "'s env \<Rightarrow> string list \<Rightarrow> 's world \<Rightarrow> errmsg option \<times> 's world" where
  "delLinks E [] w = (None, w)"
| "delLinks E (iface # rest) w =
     (if HasPrefix iface ''fd-'' then
        (case call E (OpLinkDel iface) w of
           (Some err, w') \<Rightarrow> (Some err, w')
         | (None, w') \<Rightarrow> delLinks E rest w')
      else delLinks E rest w)"

definition teardownGRE :: "'s env \<Rightarrow> 's world \<Rightarrow> errmsg option \<times> 's world" where
  "teardownGRE E w =
     (case LinkList E (kernel w) of
        Inl err \<Rightarrow> (Some err, w)
      | Inr links \<Rightarrow> delLinks E links w)"

text \<open>The call in \<^verbatim>\<open>main\<close>: an error of the teardown is logged and the start goes on.\<close>

definition mainTeardown :: "'s env \<Rightarrow> 's world \<Rightarrow> 's world" where
  "mainTeardown E w =
     (case teardownGRE E w of
        (Some err, w') \<Rightarrow> w'\<lparr>logs := logs w' @ [(Error, ''Error tearing down interfaces: '' @ err)]\<rparr>
      | (None, w') \<Rightarrow> w')"

subsection \<open>icmpLatency\<close>

text \<open>
  The pinger of \<^verbatim>\<open>go-ping\<close> is a parameter as well: \<open>NewPinger\<close> may fail,
  and \<open>Run\<close> stands for \<^verbatim>\<open>pinger.Run()\<close> followed by
  \<^verbatim>\<open>pinger.Statistics()\<close>. How the library computes the statistics is not in the
  sources; of its \<^verbatim>\<open>Statistics\<close> the record keeps the two fields the program reads and
  the number of replies.
\<close>

record Pinger =
  Addr :: string
  Source :: string
  Count :: int
  Timeout :: Duration
  Privileged :: bool

record Statistics =
  PacketsRecv :: int
  PacketLoss :: real
  AvgRtt :: Duration

record pinglib =
  NewPinger :: "string \<Rightarrow> errmsg option"
  Run :: "Pinger \<Rightarrow> errmsg + Statistics"

definition icmpLatency :: "pinglib \<Rightarrow> string \<Rightarrow> string \<Rightarrow> Duration \<times> real \<times> errmsg option" where
  "icmpLatency P src dst =
     (case NewPinger P dst of
        Some err \<Rightarrow> (0, 0, Some err)
      | None \<Rightarrow>
          (case Run P \<lparr>Addr = dst, Source = src, Count = 3, Timeout = 500 * Millisecond,
                       Privileged = False\<rparr> of
             Inl err \<Rightarrow> (0, 0, Some err)
           | Inr stats \<Rightarrow> (AvgRtt stats, PacketLoss stats, None)))"

subsection \<open>The handlers of /reroute and /noreroute\<close>

text \<open>
  A handler either writes a body or panics; \<^verbatim>\<open>net/http\<close> recovers the panic of a
  handler and closes the connection without a body.
\<close>

datatype response = Panic | Written string

definition newline :: string where
  "newline = [CHR 0x0A]"

text \<open>
  \<^verbatim>\<open>node.ID\<close> is evaluated for the arguments of \<^verbatim>\<open>setReroute\<close>, before the
  call: on a nil \<^verbatim>\<open>node\<close> it panics and \<^verbatim>\<open>setReroute\<close> does not run.
\<close>

definition rerouteHandler :: "'s env \<Rightarrow> rangevar \<Rightarrow> Config \<Rightarrow> string list \<Rightarrow> string \<Rightarrow> 's world \<Rightarrow> response \<times> 's world" where
  "rerouteHandler E rv config order to w =
     (case (if to = [] then closestNode rv order w
            else (Some (case Nodes config to of None \<Rightarrow> zeroNode | Some n \<Rightarrow> n), to)) of
        (None, to') \<Rightarrow> (Panic, w)
      | (Some node, to') \<Rightarrow>
          (case setReroute E True (Prefixes config)
                  (internalIP (Prefix4 config) (ID node) 0)
                  (internalIP (Prefix6 config) (ID node) 0) w of
             (Some err, w') \<Rightarrow>
               (Written (''Error rerouting to '' @ to' @ '': '' @ err @ newline), w')
           | (None, w') \<Rightarrow> (Written (''Rerouting to '' @ to' @ newline), w')))"

definition norerouteHandler :: "'s env \<Rightarrow> Config \<Rightarrow> 's world \<Rightarrow> response \<times> 's world" where
  "norerouteHandler E config w =
     (case setReroute E False (Prefixes config) [] [] w of
        (Some err, w') \<Rightarrow> (Written (''Error disabling reroute: '' @ err @ newline), w')
      | (None, w') \<Rightarrow> (Written (''Reroute disabled'' @ newline), w'))"

subsection \<open>The probe loop\<close>

definition Seconds :: "Duration \<Rightarrow> real" where
  "Seconds d = real_of_int d / 1000000000"

text \<open>The body of the inner loop of \<^verbatim>\<open>main\<close>, for one entry of \<^verbatim>\<open>config.Nodes\<close>.\<close>

definition probeNode :: "pinglib \<Rightarrow> Config \<Rightarrow> string \<Rightarrow> string \<Rightarrow> Node \<Rightarrow> 's world \<Rightarrow> 's world" where
  "probeNode P config localNodeName name node w =
     (if ID node = LocalID config then w
      else
        (case icmpLatency P (internalIP (Prefix4 config) (LocalID config) 0)
                            (internalIP (Prefix4 config) (ID node) 0) of
           (latency, loss, err) \<Rightarrow>
             (let w1 = (case err of
                          Some e \<Rightarrow> w\<lparr>logs := logs w @ [(Warn, ''Error pinging '' @ name @ '': '' @ e)]\<rparr>
                        | None \<Rightarrow> w);
                  w2 = (if latency \<le> LatencyThreshold config \<and> loss < LossThreshold config
                        then w1\<lparr>candidateNodes := (candidateNodes w1)(name \<mapsto> node\<lparr>Latency := latency\<rparr>)\<rparr>
                        else w1\<lparr>candidateNodes := (candidateNodes w1)(name := None)\<rparr>)
              in w2\<lparr>metricCandidateNodes := real (card (dom (candidateNodes w2))),
                     metricNodeLatency := (metricNodeLatency w2)((localNodeName, name) \<mapsto> Seconds latency)\<rparr>)))"

text \<open>One tick: the inner loop over \<^verbatim>\<open>config.Nodes\<close>, visited in \<open>order\<close>.\<close>

fun probeNodes :: "pinglib \<Rightarrow> Config \<Rightarrow> string \<Rightarrow> (string \<times> Node) list \<Rightarrow> 's world \<Rightarrow> 's world" where
  "probeNodes P config localNodeName [] w = w"
| "probeNodes P config localNodeName ((name, node) # rest) w =
     probeNodes P config localNodeName rest (probeNode P config localNodeName name node w)"

definition tick :: "pinglib \<Rightarrow> Config \<Rightarrow> string \<Rightarrow> string list \<Rightarrow> 's world \<Rightarrow> 's world" where
  "tick P config localNodeName order w =
     probeNodes P config localNodeName (rangeOf (Nodes config) order) w"

section \<open>A system to run the program on\<close>

text \<open>
  A small system for concrete runs: the interfaces by name and the routing table. The requests
  behave as \<^verbatim>\<open>ip link del\<close>, \<^verbatim>\<open>ip route add\<close> and \<^verbatim>\<open>ip route del\<close> do:
  deleting an interface that does not exist fails, adding a route whose destination and
  priority are in the table fails, deleting a route that is not in the table fails.
  \<open>refused\<close> lists requests the system turns down whatever its state (as it does for want
  of a permission). The script stands for one that brings the interface \<^verbatim>\<open>local\<close> back.
  The messages stand for the error numbers the kernel answers; nothing depends on their wording.
\<close>

record ksys =
  links :: "string list"
  rtable :: "Route list"
  refused :: "sysop list"

fun delFirst :: "IPNet \<Rightarrow> Route list \<Rightarrow> Route list" where
  "delFirst d [] = []"
| "delFirst d (r # rs) = (if Dst r = d then rs else r # delFirst d rs)"

definition simLinkDel :: "string \<Rightarrow> ksys \<Rightarrow> errmsg option \<times> ksys" where
  "simLinkDel name k =
     (if OpLinkDel name \<in> set (refused k) then (Some ''operation not permitted'', k)
      else if name \<in> set (links k) then (None, k\<lparr>links := removeAll name (links k)\<rparr>)
      else (Some ''no such device'', k))"

definition simNetSh :: "ksys \<Rightarrow> errmsg option \<times> ksys" where
  "simNetSh k =
     (if OpNetSh \<in> set (refused k) then (Some ''exit status 1'', k)
      else (None, k\<lparr>links := List.insert ''local'' (links k)\<rparr>))"

definition simRouteAdd :: "Route \<Rightarrow> ksys \<Rightarrow> errmsg option \<times> ksys" where
  "simRouteAdd r k =
     (if OpRouteAdd r \<in> set (refused k) then (Some ''operation not permitted'', k)
      else if list_ex (\<lambda>r'. Dst r' = Dst r \<and> Priority r' = Priority r) (rtable k)
      then (Some ''file exists'', k)
      else (None, k\<lparr>rtable := rtable k @ [r]\<rparr>))"

definition simRouteDel :: "Route \<Rightarrow> ksys \<Rightarrow> errmsg option \<times> ksys" where
  "simRouteDel r k =
     (if OpRouteDel r \<in> set (refused k) then (Some ''operation not permitted'', k)
      else if list_ex (\<lambda>r'. Dst r' = Dst r) (rtable k)
      then (None, k\<lparr>rtable := delFirst (Dst r) (rtable k)\<rparr>)
      else (Some ''no such process'', k))"

definition sim :: "(string \<Rightarrow> errmsg + IPNet) \<Rightarrow> (string \<Rightarrow> ipaddr option) \<Rightarrow> ksys env" where
  "sim parseCIDR parseIP =
     \<lparr>ParseCIDR = parseCIDR, ParseIP = parseIP, LinkList = (\<lambda>k. Inr (links k)),
      LinkDel = simLinkDel, NetSh = simNetSh, RouteAdd = simRouteAdd, RouteDel = simRouteDel\<rparr>"

text \<open>Parsers that know the addresses of the examples below, and a state to start from.\<close>

definition exCIDR :: "string \<Rightarrow> errmsg + IPNet" where
  "exCIDR s =
     (if s = ''192.0.2.0/24'' then Inr \<lparr>NetIP = IPv4 ''192.0.2.0'', Mask = 24\<rparr>
      else if s = ''2001:db8::/48'' then Inr \<lparr>NetIP = IPv6 ''2001:db8::'', Mask = 48\<rparr>
      else Inl (''invalid CIDR address: '' @ s))"

definition exIP :: "string \<Rightarrow> ipaddr option" where
  "exIP s =
     (if s = [] then None
      else if CHR '':'' \<in> set s then Some (IPv6 s) else Some (IPv4 s))"

definition exEnv :: "ksys env" where
  "exEnv = sim exCIDR exIP"

definition exWorld :: "string list \<Rightarrow> ksys world" where
  "exWorld ifaces =
     \<lparr>kernel = \<lparr>links = ifaces, rtable = [], refused = []\<rparr>,
      candidateNodes = Map.empty, metricIsRerouting = 0, metricCandidateNodes = 0,
      metricNodeLatency = Map.empty, logs = [], syscalls = []\<rparr>"

definition exConfig :: Config where
  "exConfig =
     \<lparr>LocalID = 1, Prefix4 = ''172.17.104.'', Prefix6 = ''fd00::'',
      PingInterval = 1000 * Millisecond, LatencyThreshold = 100 * Millisecond,
      LossThreshold = 1 / 10, Listen = '':8080'',
      Prefixes = [''192.0.2.0/24'', ''2001:db8::/48''],
      Nodes = [''a'' \<mapsto> \<lparr>ID = 1, IP = ''198.51.100.1'', Latency = 0\<rparr>,
               ''b'' \<mapsto> \<lparr>ID = 2, IP = ''198.51.100.2'', Latency = 0\<rparr>,
               ''c'' \<mapsto> \<lparr>ID = 3, IP = ''198.51.100.3'', Latency = 0\<rparr>]\<rparr>"

text \<open>The candidates of the examples, and the state after the first example has rerouted.\<close>

definition exCands :: "string \<rightharpoonup> Node" where
  "exCands = [''a'' \<mapsto> \<lparr>ID = 1, IP = ''198.51.100.1'', Latency = 10 * Millisecond\<rparr>,
              ''b'' \<mapsto> \<lparr>ID = 2, IP = ''198.51.100.2'', Latency = 5 * Millisecond\<rparr>,
              ''c'' \<mapsto> \<lparr>ID = 3, IP = ''198.51.100.3'', Latency = 5 * Millisecond\<rparr>]"

definition exRerouted :: "ksys world" where
  "exRerouted =
    \<lparr>kernel = \<lparr>links = [''fd-b''],
                rtable = [\<lparr>Dst = \<lparr>NetIP = IPv4 ''192.0.2.0'', Mask = 24\<rparr>,
                            Gw = Some (IPv4 ''172.17.104.2''), Priority = 1, Scope = 0\<rparr>,
                          \<lparr>Dst = \<lparr>NetIP = IPv6 ''2001:db8::'', Mask = 48\<rparr>,
                            Gw = Some (IPv6 ''fd00::2''), Priority = 1, Scope = 0\<rparr>],
                refused = []\<rparr>,
      candidateNodes = Map.empty, metricIsRerouting = 1, metricCandidateNodes = 0,
      metricNodeLatency = Map.empty, logs = [],
      syscalls = [(OpLinkDel ''local'', None),
                  (OpRouteAdd \<lparr>Dst = \<lparr>NetIP = IPv4 ''192.0.2.0'', Mask = 24\<rparr>,
                            Gw = Some (IPv4 ''172.17.104.2''), Priority = 1, Scope = 0\<rparr>, None),
                  (OpRouteAdd \<lparr>Dst = \<lparr>NetIP = IPv6 ''2001:db8::'', Mask = 48\<rparr>,
                            Gw = Some (IPv6 ''fd00::2''), Priority = 1, Scope = 0\<rparr>, None)]\<rparr>"

text \<open>
  Two pingers: one that cannot probe at all, and one that probes and gets no reply. For the
  second the statistics are those \<^verbatim>\<open>go-ping\<close> documents for that case: no round-trip
  time, and \<^verbatim>\<open>PacketLoss\<close>, which it gives as a percentage, at 100.
\<close>

definition exPingFails :: pinglib where
  "exPingFails = \<lparr>NewPinger = (\<lambda>dst. None), Run = (\<lambda>p. Inl ''socket: permission denied'')\<rparr>"

definition exPingSilent :: pinglib where
  "exPingSilent =
     \<lparr>NewPinger = (\<lambda>dst. None),
      Run = (\<lambda>p. Inr \<lparr>PacketsRecv = 0, PacketLoss = 100, AvgRtt = 0\<rparr>)\<rparr>"

text \<open>A state in which peer b is a candidate at 40 ms and peer c is none.\<close>

definition exProbed :: "ksys world" where
  "exProbed = (exWorld [])\<lparr>candidateNodes :=
      [''b'' \<mapsto> \<lparr>ID = 2, IP = ''198.51.100.2'', Latency = 40 * Millisecond\<rparr>]\<rparr>"

text \<open>A system with two tunnels, of which the first cannot be deleted.\<close>

definition exStuck :: "ksys world" where
  "exStuck = (exWorld [])\<lparr>kernel :=
      \<lparr>links = [''fd-b'', ''eth0'', ''fd-c''], rtable = [], refused = [OpLinkDel ''fd-b'']\<rparr>\<rparr>"

section \<open>Vocabulary of the properties\<close>

text \<open>
  The request that \<^verbatim>\<open>addRoute\<close> issues for a parsed prefix, and the one the removal
  loop of \<^verbatim>\<open>setReroute\<close> issues.
\<close>

definition addOp :: "'s env \<Rightarrow> string \<Rightarrow> string \<Rightarrow> IPNet \<Rightarrow> sysop" where
  "addOp E nexthop4 nexthop6 ipNet =
     OpRouteAdd \<lparr>Dst = ipNet, Gw = ParseIP E (if To4 (NetIP ipNet) then nexthop4 else nexthop6),
                 Priority = 1, Scope = SCOPE_UNIVERSE\<rparr>"

definition delOp :: "IPNet \<Rightarrow> sysop" where
  "delOp ipNet = OpRouteDel \<lparr>Dst = ipNet, Gw = None, Priority = 0, Scope = SCOPE_UNIVERSE\<rparr>"

fun isAdd :: "sysop \<Rightarrow> bool" where
  "isAdd (OpRouteAdd r) = True"
| "isAdd op = False"

fun isDel :: "sysop \<Rightarrow> bool" where
  "isDel (OpRouteDel r) = True"
| "isDel op = False"

text \<open>The interfaces that \<^verbatim>\<open>teardownGRE\<close> deletes.\<close>

definition isTunnel :: "string \<Rightarrow> bool" where
  "isTunnel iface = HasPrefix iface ''fd-''"

text \<open>
  In the system of the concrete runs: no request to delete the interface \<^verbatim>\<open>local\<close> can
  succeed any more.
\<close>

definition localGone :: "ksys world \<Rightarrow> bool" where
  "localGone w = (OpLinkDel ''local'' \<in> set (refused (kernel w)) \<or>
                  ''local'' \<notin> set (links (kernel w)))"

section \<open>Properties\<close>

subsection \<open>The requests a call issues\<close>

lemma call_syscalls: "call E op w = (e, w') \<Longrightarrow> syscalls w' = syscalls w @ [(op, e)]"
  by (auto simp: call_def split: prod.splits)

lemma addRoute_cases:
  assumes "addRoute E p n4 n6 w = (r, w')"
  shows "(\<exists>err. ParseCIDR E p = Inl err \<and> r = Some err \<and> w' = w) \<or>
         (\<exists>n. ParseCIDR E p = Inr n \<and> syscalls w' = syscalls w @ [(addOp E n4 n6 n, r)])"
proof (cases "ParseCIDR E p")
  case (Inl err)
  with assms show ?thesis by (simp add: addRoute_def)
next
  case (Inr n)
  with assms have "call E (addOp E n4 n6 n) w = (r, w')"
    by (simp add: addRoute_def addOp_def Let_def)
  from call_syscalls [OF this] Inr show ?thesis by simp
qed

lemma delRoute_cases:
  assumes "delRoute E p w = (r, w')"
  shows "(\<exists>err. ParseCIDR E p = Inl err \<and> r = Some err \<and> w' = w) \<or>
         (\<exists>n. ParseCIDR E p = Inr n \<and> syscalls w' = syscalls w @ [(delOp n, r)])"
proof (cases "ParseCIDR E p")
  case (Inl err)
  with assms show ?thesis by (simp add: delRoute_def)
next
  case (Inr n)
  with assms have "call E (delOp n) w = (r, w')"
    by (simp add: delRoute_def delOp_def)
  from call_syscalls [OF this] Inr show ?thesis by simp
qed

lemma addRoutes_trace:
  "addRoutes E ps n4 n6 w = (r, w') \<Longrightarrow>
   \<exists>tr. syscalls w' = syscalls w @ tr \<and> (\<forall>ev\<in>set tr. isAdd (fst ev)) \<and>
        (r = None \<longrightarrow> (\<exists>nets. map (ParseCIDR E) ps = map Inr nets \<and>
                                tr = map (\<lambda>n. (addOp E n4 n6 n, None)) nets))"
proof (induction ps arbitrary: w)
  case Nil
  then show ?case by simp
next
  case (Cons p ps)
  obtain r1 w1 where step: "addRoute E p n4 n6 w = (r1, w1)" by (cases "addRoute E p n4 n6 w")
  show ?case
  proof (cases r1)
    case (Some err)
    with Cons.prems step have res: "r = Some err" "w' = w1" by simp_all
    from addRoute_cases [OF step] show ?thesis
    proof
      assume "\<exists>err. ParseCIDR E p = Inl err \<and> r1 = Some err \<and> w1 = w"
      with res show ?thesis by (intro exI [of _ "[]"]) auto
    next
      assume "\<exists>n. ParseCIDR E p = Inr n \<and> syscalls w1 = syscalls w @ [(addOp E n4 n6 n, r1)]"
      then obtain n where "syscalls w1 = syscalls w @ [(addOp E n4 n6 n, r1)]" by blast
      with res show ?thesis by (intro exI [of _ "[(addOp E n4 n6 n, r1)]"]) (simp add: addOp_def)
    qed
  next
    case None
    with Cons.prems step have rest: "addRoutes E ps n4 n6 w1 = (r, w')" by simp
    from addRoute_cases [OF step] None obtain n where n: "ParseCIDR E p = Inr n"
      "syscalls w1 = syscalls w @ [(addOp E n4 n6 n, None)]" by auto
    from Cons.IH [OF rest] obtain tr where tr: "syscalls w' = syscalls w1 @ tr"
      "\<forall>ev\<in>set tr. isAdd (fst ev)"
      "r = None \<longrightarrow> (\<exists>nets. map (ParseCIDR E) ps = map Inr nets \<and>
                                tr = map (\<lambda>n. (addOp E n4 n6 n, None)) nets)" by blast
    have a: "syscalls w' = syscalls w @ ((addOp E n4 n6 n, None) # tr)" using n tr by simp
    have b: "\<forall>ev\<in>set ((addOp E n4 n6 n, None) # tr). isAdd (fst ev)"
      using tr(2) by (simp add: addOp_def)
    have c: "r = None \<longrightarrow> (\<exists>nets. map (ParseCIDR E) (p # ps) = map Inr nets \<and>
         (addOp E n4 n6 n, None) # tr = map (\<lambda>n. (addOp E n4 n6 n, None)) nets)"
    proof
      assume "r = None"
      with tr(3) obtain nets where "map (ParseCIDR E) ps = map Inr nets"
        "tr = map (\<lambda>n. (addOp E n4 n6 n, None)) nets" by blast
      with n(1) have "map (ParseCIDR E) (p # ps) = map Inr (n # nets) \<and>
         (addOp E n4 n6 n, None) # tr = map (\<lambda>n. (addOp E n4 n6 n, None)) (n # nets)" by simp
      then show "\<exists>nets. map (ParseCIDR E) (p # ps) = map Inr nets \<and>
         (addOp E n4 n6 n, None) # tr = map (\<lambda>n. (addOp E n4 n6 n, None)) nets"
        by (rule exI [of _ "n # nets"])
    qed
    show ?thesis by (rule exI [of _ "(addOp E n4 n6 n, None) # tr"]) (intro conjI a b c)
  qed
qed

lemma delRoutes_trace:
  "delRoutes E ps w = (r, w') \<Longrightarrow>
   \<exists>tr. syscalls w' = syscalls w @ tr \<and> (\<forall>ev\<in>set tr. isDel (fst ev)) \<and>
        (r = None \<longrightarrow> (\<exists>nets. map (ParseCIDR E) ps = map Inr nets \<and>
                                tr = map (\<lambda>n. (delOp n, None)) nets))"
proof (induction ps arbitrary: w)
  case Nil
  then show ?case by simp
next
  case (Cons p ps)
  obtain r1 w1 where step: "delRoute E p w = (r1, w1)" by (cases "delRoute E p w")
  show ?case
  proof (cases r1)
    case (Some err)
    with Cons.prems step have res: "r = Some err" "w' = w1" by simp_all
    from delRoute_cases [OF step] show ?thesis
    proof
      assume "\<exists>err. ParseCIDR E p = Inl err \<and> r1 = Some err \<and> w1 = w"
      with res show ?thesis by (intro exI [of _ "[]"]) auto
    next
      assume "\<exists>n. ParseCIDR E p = Inr n \<and> syscalls w1 = syscalls w @ [(delOp n, r1)]"
      then obtain n where "syscalls w1 = syscalls w @ [(delOp n, r1)]" by blast
      with res show ?thesis by (intro exI [of _ "[(delOp n, r1)]"]) (simp add: delOp_def)
    qed
  next
    case None
    with Cons.prems step have rest: "delRoutes E ps w1 = (r, w')" by simp
    from delRoute_cases [OF step] None obtain n where n: "ParseCIDR E p = Inr n"
      "syscalls w1 = syscalls w @ [(delOp n, None)]" by auto
    from Cons.IH [OF rest] obtain tr where tr: "syscalls w' = syscalls w1 @ tr"
      "\<forall>ev\<in>set tr. isDel (fst ev)"
      "r = None \<longrightarrow> (\<exists>nets. map (ParseCIDR E) ps = map Inr nets \<and>
                                tr = map (\<lambda>n. (delOp n, None)) nets)" by blast
    have a: "syscalls w' = syscalls w @ ((delOp n, None) # tr)" using n tr by simp
    have b: "\<forall>ev\<in>set ((delOp n, None) # tr). isDel (fst ev)"
      using tr(2) by (simp add: delOp_def)
    have c: "r = None \<longrightarrow> (\<exists>nets. map (ParseCIDR E) (p # ps) = map Inr nets \<and>
         (delOp n, None) # tr = map (\<lambda>n. (delOp n, None)) nets)"
    proof
      assume "r = None"
      with tr(3) obtain nets where "map (ParseCIDR E) ps = map Inr nets"
        "tr = map (\<lambda>n. (delOp n, None)) nets" by blast
      with n(1) have "map (ParseCIDR E) (p # ps) = map Inr (n # nets) \<and>
         (delOp n, None) # tr = map (\<lambda>n. (delOp n, None)) (n # nets)" by simp
      then show "\<exists>nets. map (ParseCIDR E) (p # ps) = map Inr nets \<and>
         (delOp n, None) # tr = map (\<lambda>n. (delOp n, None)) nets"
        by (rule exI [of _ "n # nets"])
    qed
    show ?thesis by (rule exI [of _ "(delOp n, None) # tr"]) (intro conjI a b c)
  qed
qed

lemma setPFNet_syscalls:
  "setPFNet E state w = (r, w') \<Longrightarrow>
   syscalls w' = syscalls w @ [(if state then OpNetSh else OpLinkDel ''local'', r)]"
  by (auto simp: setPFNet_def dest: call_syscalls split: if_splits)

lemma parsed_nth:
  assumes "map (ParseCIDR E) prefixes = map Inr nets" and "p \<in> set prefixes"
  shows "\<exists>j<length nets. ParseCIDR E p = Inr (nets ! j)"
proof -
  from assms(1) have len: "length prefixes = length nets"
    by (metis length_map)
  from assms(2) obtain j where j: "j < length prefixes" "prefixes ! j = p"
    by (auto simp: in_set_conv_nth)
  have "map (ParseCIDR E) prefixes ! j = map Inr nets ! j" using assms(1) by simp
  with j len have "ParseCIDR E p = Inr (nets ! j)" by simp
  with j len show ?thesis by auto
qed

lemma enter_ordering:
  assumes "setReroute E True prefixes nexthop4 nexthop6 w = (r, w')"
  shows "\<exists>tr. syscalls w' = syscalls w @ tr \<and>
           (\<forall>i<length tr. isAdd (fst (tr ! i)) \<longrightarrow> 0 < i \<and> tr ! 0 = (OpLinkDel ''local'', None))"
proof -
  obtain r1 w1 where pf: "setPFNet E False (w\<lparr>metricIsRerouting := 1\<rparr>) = (r1, w1)"
    by (cases "setPFNet E False (w\<lparr>metricIsRerouting := 1\<rparr>)")
  from setPFNet_syscalls [OF pf]
  have s1: "syscalls w1 = syscalls w @ [(OpLinkDel ''local'', r1)]" by simp
  show ?thesis
  proof (cases r1)
    case (Some err)
    with assms pf have "w' = w1" by (simp add: setReroute_def)
    with s1 Some show ?thesis
      by (intro exI [of _ "[(OpLinkDel ''local'', r1)]"]) simp
  next
    case None
    with assms pf have "addRoutes E prefixes nexthop4 nexthop6 w1 = (r, w')"
      by (simp add: setReroute_def)
    from addRoutes_trace [OF this] obtain tr2 where "syscalls w' = syscalls w1 @ tr2" by blast
    with s1 None have "syscalls w' = syscalls w @ ((OpLinkDel ''local'', None) # tr2)" by simp
    moreover have "\<forall>i<length ((OpLinkDel ''local'', None) # tr2).
        isAdd (fst (((OpLinkDel ''local'', None) # tr2) ! i)) \<longrightarrow>
        0 < i \<and> ((OpLinkDel ''local'', None) # tr2) ! 0 = (OpLinkDel ''local'', None)"
      by (auto simp: nth_Cons split: nat.splits)
    ultimately show ?thesis by blast
  qed
qed

lemma leave_ordering:
  assumes "setReroute E False prefixes nexthop4 nexthop6 w = (r, w')"
  shows "\<exists>tr. syscalls w' = syscalls w @ tr \<and>
           (\<forall>i<length tr. fst (tr ! i) = OpNetSh \<longrightarrow>
              (\<forall>p\<in>set prefixes. \<exists>n. ParseCIDR E p = Inr n \<and> (\<exists>j<i. tr ! j = (delOp n, None))))"
proof -
  obtain r1 w1 where dl: "delRoutes E prefixes w = (r1, w1)" by (cases "delRoutes E prefixes w")
  from delRoutes_trace [OF dl] obtain tr1 where tr1: "syscalls w1 = syscalls w @ tr1"
    "\<forall>ev\<in>set tr1. isDel (fst ev)"
    "r1 = None \<longrightarrow> (\<exists>nets. map (ParseCIDR E) prefixes = map Inr nets \<and>
                                tr1 = map (\<lambda>n. (delOp n, None)) nets)" by blast
  show ?thesis
  proof (cases r1)
    case (Some err)
    with assms dl have "w' = w1" by (simp add: setReroute_def)
    moreover have "\<forall>i<length tr1. fst (tr1 ! i) \<noteq> OpNetSh"
    proof (intro allI impI)
      fix i assume "i < length tr1"
      then have "isDel (fst (tr1 ! i))" using tr1(2) by simp
      then show "fst (tr1 ! i) \<noteq> OpNetSh" by auto
    qed
    ultimately show ?thesis using tr1(1) by (intro exI [of _ tr1]) simp
  next
    case None
    with tr1(3) obtain nets where nets: "map (ParseCIDR E) prefixes = map Inr nets"
      "tr1 = map (\<lambda>n. (delOp n, None)) nets" by blast
    obtain r2 w2 where pf: "setPFNet E True w1 = (r2, w2)" by (cases "setPFNet E True w1")
    from setPFNet_syscalls [OF pf] have s2: "syscalls w2 = syscalls w1 @ [(OpNetSh, r2)]" by simp
    from assms dl None pf have "syscalls w' = syscalls w2"
      by (cases r2) (auto simp: setReroute_def)
    with s2 tr1(1) have tr: "syscalls w' = syscalls w @ (tr1 @ [(OpNetSh, r2)])" by simp
    have "\<forall>i<length (tr1 @ [(OpNetSh, r2)]). fst ((tr1 @ [(OpNetSh, r2)]) ! i) = OpNetSh \<longrightarrow>
              (\<forall>p\<in>set prefixes. \<exists>n. ParseCIDR E p = Inr n \<and>
                 (\<exists>j<i. (tr1 @ [(OpNetSh, r2)]) ! j = (delOp n, None)))"
    proof (intro allI impI ballI)
      fix i p
      assume i: "i < length (tr1 @ [(OpNetSh, r2)])"
        and sh: "fst ((tr1 @ [(OpNetSh, r2)]) ! i) = OpNetSh" and p: "p \<in> set prefixes"
      have "\<not> i < length tr1"
      proof
        assume lt: "i < length tr1"
        then have "isDel (fst (tr1 ! i))" using tr1(2) by simp
        moreover from lt sh have "fst (tr1 ! i) = OpNetSh" by (simp add: nth_append)
        ultimately show False by simp
      qed
      with i have ieq: "i = length nets" using nets(2) by simp
      from parsed_nth [OF nets(1) p] obtain j where j: "j < length nets"
        "ParseCIDR E p = Inr (nets ! j)" by blast
      from j(1) have "(tr1 @ [(OpNetSh, r2)]) ! j = (delOp (nets ! j), None)"
        using nets(2) by (simp add: nth_append)
      with j ieq show "\<exists>n. ParseCIDR E p = Inr n \<and>
                 (\<exists>j<i. (tr1 @ [(OpNetSh, r2)]) ! j = (delOp n, None))" by blast
    qed
    with tr show ?thesis by blast
  qed
qed

subsection \<open>Concrete runs\<close>

lemmas ex_defs = exEnv_def sim_def simLinkDel_def simNetSh_def simRouteAdd_def simRouteDel_def
  exWorld_def exConfig_def exCIDR_def exIP_def SCOPE_UNIVERSE_def
  setReroute_def setPFNet_def call_def addRoute_def delRoute_def Let_def

lemma ex_enter:
  "setReroute exEnv True (Prefixes exConfig) ''172.17.104.2'' ''fd00::2'' (exWorld [''local'', ''fd-b'']) =
   (None, exRerouted)"
  by (simp add: ex_defs exRerouted_def)

lemma ex_leave:
  "setReroute exEnv False (Prefixes exConfig) [] [] exRerouted =
   (None, exRerouted\<lparr>kernel := \<lparr>links = [''local'', ''fd-b''], rtable = [], refused = []\<rparr>,
                      metricIsRerouting := 0,
                      syscalls := syscalls exRerouted @
                        [(OpRouteDel \<lparr>Dst = \<lparr>NetIP = IPv4 ''192.0.2.0'', Mask = 24\<rparr>,
                                      Gw = None, Priority = 0, Scope = 0\<rparr>, None),
                         (OpRouteDel \<lparr>Dst = \<lparr>NetIP = IPv6 ''2001:db8::'', Mask = 48\<rparr>,
                                      Gw = None, Priority = 0, Scope = 0\<rparr>, None),
                         (OpNetSh, None)]\<rparr>)"
  by (simp add: ex_defs exRerouted_def)

subsection \<open>setReroute\<close>

text \<open>
  C7. \<^verbatim>\<open>setReroute\<close> returns no error only if every step of the transition was carried
  out and succeeded: every prefix parsed, and the requests issued are exactly the removal of the
  local interface followed by one successful route addition per prefix (entering), or one
  successful route removal per prefix followed by the successful run of the script (leaving).
  A step that fails therefore makes the call return an error.
\<close>

theorem setReroute_success_complete:
  assumes "setReroute E reroute prefixes nexthop4 nexthop6 w = (None, w')"
  shows "\<exists>nets. map (ParseCIDR E) prefixes = map Inr nets \<and>
           syscalls w' = syscalls w @
             (if reroute
              then (OpLinkDel ''local'', None) # map (\<lambda>n. (addOp E nexthop4 nexthop6 n, None)) nets
              else map (\<lambda>n. (delOp n, None)) nets @ [(OpNetSh, None)])"
proof (cases reroute)
  case True
  obtain r1 w1 where pf: "setPFNet E False (w\<lparr>metricIsRerouting := 1\<rparr>) = (r1, w1)"
    by (cases "setPFNet E False (w\<lparr>metricIsRerouting := 1\<rparr>)")
  from assms True pf have r1: "r1 = None" by (cases r1) (simp_all add: setReroute_def)
  with assms True pf have adds: "addRoutes E prefixes nexthop4 nexthop6 w1 = (None, w')"
    by (simp add: setReroute_def)
  from setPFNet_syscalls [OF pf] r1
  have s1: "syscalls w1 = syscalls w @ [(OpLinkDel ''local'', None)]" by simp
  from addRoutes_trace [OF adds] obtain nets where
    "map (ParseCIDR E) prefixes = map Inr nets"
    "syscalls w' = syscalls w1 @ map (\<lambda>n. (addOp E nexthop4 nexthop6 n, None)) nets" by auto
  with s1 True show ?thesis by auto
next
  case False
  obtain r1 w1 where dl: "delRoutes E prefixes w = (r1, w1)" by (cases "delRoutes E prefixes w")
  from assms False dl have r1: "r1 = None" by (cases r1) (simp_all add: setReroute_def)
  obtain r2 w2 where pf: "setPFNet E True w1 = (r2, w2)" by (cases "setPFNet E True w1")
  from assms False dl r1 pf have r2: "r2 = None" by (cases r2) (simp_all add: setReroute_def)
  from assms False dl r1 pf r2 have w': "w' = w2\<lparr>metricIsRerouting := 0\<rparr>"
    by (simp add: setReroute_def)
  from delRoutes_trace [OF dl] r1 obtain nets where nets:
    "map (ParseCIDR E) prefixes = map Inr nets"
    "syscalls w1 = syscalls w @ map (\<lambda>n. (delOp n, None)) nets" by auto
  from setPFNet_syscalls [OF pf] r2 have "syscalls w2 = syscalls w1 @ [(OpNetSh, None)]" by simp
  with nets w' False show ?thesis by auto
qed

theorem setReroute_success_complete_witness:
  "setReroute exEnv True (Prefixes exConfig) ''172.17.104.2'' ''fd00::2''
     (exWorld [''local'', ''fd-b'']) = (None, exRerouted) \<and>
   (\<exists>nets. map (ParseCIDR exEnv) (Prefixes exConfig) = map Inr nets \<and>
      syscalls exRerouted = syscalls (exWorld [''local'', ''fd-b'']) @
        (if True
         then (OpLinkDel ''local'', None) #
              map (\<lambda>n. (addOp exEnv ''172.17.104.2'' ''fd00::2'' n, None)) nets
         else map (\<lambda>n. (delOp n, None)) nets @ [(OpNetSh, None)]))"
  by (intro conjI ex_enter setReroute_success_complete [OF ex_enter])

text \<open>
  C4. In every run of \<^verbatim>\<open>setReroute\<close>: when entering, a request to add a route is only
  issued after the request that disables local handling, which is the first request and has
  succeeded; when leaving, the request that enables local handling is only issued after the
  route of every configured prefix has been removed successfully.
\<close>

theorem setReroute_ordering:
  assumes "setReroute E reroute prefixes nexthop4 nexthop6 w = (r, w')"
  shows "\<exists>tr. syscalls w' = syscalls w @ tr \<and>
           (reroute \<longrightarrow>
              (\<forall>i<length tr. isAdd (fst (tr ! i)) \<longrightarrow>
                 0 < i \<and> tr ! 0 = (OpLinkDel ''local'', None))) \<and>
           (\<not> reroute \<longrightarrow>
              (\<forall>i<length tr. fst (tr ! i) = OpNetSh \<longrightarrow>
                 (\<forall>p\<in>set prefixes. \<exists>n. ParseCIDR E p = Inr n \<and>
                    (\<exists>j<i. tr ! j = (delOp n, None)))))"
proof (cases reroute)
  case True
  with assms enter_ordering [of E prefixes nexthop4 nexthop6 w r w'] show ?thesis by simp
next
  case False
  with assms leave_ordering [of E prefixes nexthop4 nexthop6 w r w'] show ?thesis by simp
qed

theorem setReroute_ordering_witness:
  "(setReroute exEnv True (Prefixes exConfig) ''172.17.104.2'' ''fd00::2''
      (exWorld [''local'', ''fd-b'']) = (None, exRerouted) \<and>
    (\<exists>tr. syscalls exRerouted = syscalls (exWorld [''local'', ''fd-b'']) @ tr \<and>
       (\<forall>i<length tr. isAdd (fst (tr ! i)) \<longrightarrow>
          0 < i \<and> tr ! 0 = (OpLinkDel ''local'', None)))) \<and>
   (fst (setReroute exEnv False (Prefixes exConfig) [] [] exRerouted) = None \<and>
    (\<exists>tr. syscalls (snd (setReroute exEnv False (Prefixes exConfig) [] [] exRerouted)) =
            syscalls exRerouted @ tr \<and>
       (\<forall>i<length tr. fst (tr ! i) = OpNetSh \<longrightarrow>
          (\<forall>p\<in>set (Prefixes exConfig). \<exists>n. ParseCIDR exEnv p = Inr n \<and>
             (\<exists>j<i. tr ! j = (delOp n, None))))))"
proof -
  have leave: "setReroute exEnv False (Prefixes exConfig) [] [] exRerouted =
      (None, snd (setReroute exEnv False (Prefixes exConfig) [] [] exRerouted))"
    by (simp add: ex_leave)
  show ?thesis
    using setReroute_ordering [OF ex_enter] setReroute_ordering [OF leave] ex_enter ex_leave
    by simp
qed

subsection \<open>closestNode\<close>

lemma closestLoop_snoc:
  "closestLoop rv (xs @ [x]) acc = closestLoop rv [x] (closestLoop rv xs acc)"
proof (induction xs arbitrary: acc)
  case Nil
  show ?case by simp
next
  case (Cons a xs)
  obtain name node where a: "a = (name, node)" by (cases a)
  obtain c cn where acc: "acc = (c, cn)" by (cases acc)
  show ?case unfolding a acc by (simp add: Cons.IH Let_def)
qed

lemma closestLoop_first_least:
  "xs \<noteq> [] \<Longrightarrow>
   \<exists>pre name node post. xs = pre @ (name, node) # post \<and>
      closestLoop PerIteration xs (None, s) = (Some node, name) \<and>
      (\<forall>e\<in>set pre. Latency node < Latency (snd e)) \<and>
      (\<forall>e\<in>set post. Latency node \<le> Latency (snd e))"
proof (induction xs rule: rev_induct)
  case Nil
  then show ?case by simp
next
  case (snoc x xs)
  obtain xn xv where x: "x = (xn, xv)" by (cases x)
  show ?case
  proof (cases "xs = []")
    case True
    have "[x] = [] @ (xn, xv) # []" using x by simp
    moreover have "closestLoop PerIteration [x] (None, s) = (Some xv, xn)" using x by simp
    ultimately show ?thesis using True by fastforce
  next
    case False
    from snoc.IH [OF False] obtain pre name node post where ih:
      "xs = pre @ (name, node) # post"
      "closestLoop PerIteration xs (None, s) = (Some node, name)"
      "\<forall>e\<in>set pre. Latency node < Latency (snd e)"
      "\<forall>e\<in>set post. Latency node \<le> Latency (snd e)" by blast
    have run: "closestLoop PerIteration (xs @ [x]) (None, s) =
        (if Latency xv < Latency node then (Some xv, xn) else (Some node, name))"
      by (simp add: closestLoop_snoc ih(2) x)
    show ?thesis
    proof (cases "Latency xv < Latency node")
      case True
      have "xs @ [x] = xs @ (xn, xv) # []" using x by simp
      moreover have "closestLoop PerIteration (xs @ [x]) (None, s) = (Some xv, xn)"
        using run True by simp
      moreover have "\<forall>e\<in>set xs. Latency xv < Latency (snd e)"
        using ih(1,3,4) True by fastforce
      ultimately show ?thesis by fastforce
    next
      case False
      have "xs @ [x] = pre @ (name, node) # (post @ [(xn, xv)])" using x ih(1) by simp
      moreover have "closestLoop PerIteration (xs @ [x]) (None, s) = (Some node, name)"
        using run False by simp
      moreover have "\<forall>e\<in>set (post @ [(xn, xv)]). Latency node \<le> Latency (snd e)"
        using ih(4) False by auto
      ultimately show ?thesis using ih(3) by blast
    qed
  qed
qed

lemma set_rangeOf: "set (rangeOf m order) = {(k, v). k \<in> set order \<and> m k = Some v}"
  by (auto simp: rangeOf_def split: option.splits)

lemma rangeOf_empty: "rangeOf Map.empty order = []"
  by (simp add: rangeOf_def)

text \<open>
  C3, as amended. On an empty candidate set \<^verbatim>\<open>closestNode\<close> returns nil. On a non-empty
  one, with a range variable per iteration, it returns a candidate of least latency, and among
  the candidates of least latency the one the loop visits first: every entry visited before it
  has a strictly greater latency. The order of the visit is not fixed by the set's contents.
\<close>

theorem closestNode_first_least:
  assumes "set order = dom (candidateNodes w)"
  shows "(candidateNodes w = Map.empty \<longrightarrow> closestNode rv order w = (None, [])) \<and>
         (candidateNodes w \<noteq> Map.empty \<longrightarrow>
            (\<exists>pre name node post.
               rangeOf (candidateNodes w) order = pre @ (name, node) # post \<and>
               closestNode PerIteration order w = (Some node, name) \<and>
               candidateNodes w name = Some node \<and>
               (\<forall>e\<in>set pre. Latency node < Latency (snd e)) \<and>
               (\<forall>n v. candidateNodes w n = Some v \<longrightarrow> Latency node \<le> Latency v)))"
proof (intro conjI impI)
  assume "candidateNodes w = Map.empty"
  then show "closestNode rv order w = (None, [])"
    by (simp add: closestNode_def rangeOf_empty)
next
  assume ne: "candidateNodes w \<noteq> Map.empty"
  let ?xs = "rangeOf (candidateNodes w) order"
  from ne obtain k v where kv: "candidateNodes w k = Some v" by fastforce
  with assms have "(k, v) \<in> set ?xs" by (auto simp: set_rangeOf)
  then have "?xs \<noteq> []" by auto
  from closestLoop_first_least [OF this, of "[]"] obtain pre name node post where d:
    "?xs = pre @ (name, node) # post"
    "closestLoop PerIteration ?xs (None, []) = (Some node, name)"
    "\<forall>e\<in>set pre. Latency node < Latency (snd e)"
    "\<forall>e\<in>set post. Latency node \<le> Latency (snd e)" by blast
  have "(name, node) \<in> set ?xs" using d(1) by simp
  then have mem: "candidateNodes w name = Some node" by (simp add: set_rangeOf)
  have least: "\<forall>n v. candidateNodes w n = Some v \<longrightarrow> Latency node \<le> Latency v"
  proof (intro allI impI)
    fix n v assume "candidateNodes w n = Some v"
    with assms have "(n, v) \<in> set ?xs" by (auto simp: set_rangeOf)
    then have "(n, v) \<in> set pre \<or> (n, v) = (name, node) \<or> (n, v) \<in> set post"
      using d(1) by auto
    then show "Latency node \<le> Latency v" using d(3,4) by fastforce
  qed
  show "\<exists>pre name node post.
               rangeOf (candidateNodes w) order = pre @ (name, node) # post \<and>
               closestNode PerIteration order w = (Some node, name) \<and>
               candidateNodes w name = Some node \<and>
               (\<forall>e\<in>set pre. Latency node < Latency (snd e)) \<and>
               (\<forall>n v. candidateNodes w n = Some v \<longrightarrow> Latency node \<le> Latency v)"
    using d(1,2,3) mem least unfolding closestNode_def by blast
qed

theorem closestNode_first_least_witness:
  "set [''c'', ''b'', ''a''] = dom (candidateNodes ((exWorld [])\<lparr>candidateNodes := exCands\<rparr>)) \<and>
   candidateNodes ((exWorld [])\<lparr>candidateNodes := exCands\<rparr>) \<noteq> Map.empty \<and>
   (\<exists>pre name node post.
      rangeOf (candidateNodes ((exWorld [])\<lparr>candidateNodes := exCands\<rparr>)) [''c'', ''b'', ''a''] =
        pre @ (name, node) # post \<and>
      closestNode PerIteration [''c'', ''b'', ''a''] ((exWorld [])\<lparr>candidateNodes := exCands\<rparr>) =
        (Some node, name) \<and>
      candidateNodes ((exWorld [])\<lparr>candidateNodes := exCands\<rparr>) name = Some node \<and>
      (\<forall>e\<in>set pre. Latency node < Latency (snd e)) \<and>
      (\<forall>n v. candidateNodes ((exWorld [])\<lparr>candidateNodes := exCands\<rparr>) n = Some v \<longrightarrow>
             Latency node \<le> Latency v))"
proof -
  let ?w = "(exWorld [])\<lparr>candidateNodes := exCands\<rparr>"
  have h: "set [''c'', ''b'', ''a''] = dom (candidateNodes ?w)"
    by (auto simp: exCands_def)
  have "candidateNodes ?w ''a'' \<noteq> None" by (simp add: exCands_def)
  then have ne: "candidateNodes ?w \<noteq> Map.empty" by (metis (no_types))
  from closestNode_first_least [OF h, of PerIteration] ne h show ?thesis by blast
qed

text \<open>
  C3 as stated fails. Candidates b and c both have the least latency, 5 ms, and b has the lower
  ID. Visiting c first, the loop returns c (with a range variable per iteration) or the record
  of a, at 10 ms, under the name of c (with one range variable for the loop); visiting b first
  it returns b. The result depends on the order of the visit, and ties do not go to the lower ID.
\<close>

theorem closestNode_tie_counterexample:
  "exCands ''b'' = Some \<lparr>ID = 2, IP = ''198.51.100.2'', Latency = 5 * Millisecond\<rparr> \<and>
   closestNode PerIteration [''c'', ''b'', ''a''] ((exWorld [])\<lparr>candidateNodes := exCands\<rparr>) =
     (Some \<lparr>ID = 3, IP = ''198.51.100.3'', Latency = 5 * Millisecond\<rparr>, ''c'') \<and>
   closestNode PerIteration [''b'', ''c'', ''a''] ((exWorld [])\<lparr>candidateNodes := exCands\<rparr>) =
     (Some \<lparr>ID = 2, IP = ''198.51.100.2'', Latency = 5 * Millisecond\<rparr>, ''b'') \<and>
   closestNode PerLoop [''c'', ''b'', ''a''] ((exWorld [])\<lparr>candidateNodes := exCands\<rparr>) =
     (Some \<lparr>ID = 1, IP = ''198.51.100.1'', Latency = 10 * Millisecond\<rparr>, ''c'')"
  by (simp add: closestNode_def rangeOf_def exWorld_def exCands_def Millisecond_def)

subsection \<open>The handler of /reroute\<close>

lemma dec_0: "dec 0 = ''0''"
  by (simp add: dec.simps)

lemma internalIP_0: "internalIP prefix 0 0 = prefix @ ''0''"
  by (simp add: internalIP_def dec_0)

text \<open>
  C10. A named target that is no configured peer is not reported as an error: the handler goes
  on with the zero \<^verbatim>\<open>Node\<close>, calls \<^verbatim>\<open>setReroute\<close> with the internal addresses
  derived from ID 0, and reports success when that call returns no error.
\<close>

theorem reroute_unknown_name:
  assumes "to \<noteq> []" and "Nodes config to = None"
  shows "rerouteHandler E rv config order to w =
     (case setReroute E True (Prefixes config) (Prefix4 config @ ''0'') (Prefix6 config @ ''0'') w of
        (Some err, w') \<Rightarrow> (Written (''Error rerouting to '' @ to @ '': '' @ err @ newline), w')
      | (None, w') \<Rightarrow> (Written (''Rerouting to '' @ to @ newline), w'))"
  using assms by (simp add: rerouteHandler_def zeroNode_def internalIP_0)

theorem reroute_unknown_name_witness:
  "''zz'' \<noteq> [] \<and> Nodes exConfig ''zz'' = None \<and>
   fst (rerouteHandler exEnv PerIteration exConfig [] ''zz'' (exWorld [''local'', ''fd-b''])) =
     Written (''Rerouting to zz'' @ newline) \<and>
   map Gw (rtable (kernel (snd (rerouteHandler exEnv PerIteration exConfig [] ''zz''
     (exWorld [''local'', ''fd-b''])))))
     = [Some (IPv4 ''172.17.104.0''), Some (IPv6 ''fd00::0'')]"
proof -
  have h1: "''zz'' \<noteq> []" by simp
  have h2: "Nodes exConfig ''zz'' = None" by (simp add: exConfig_def)
  show ?thesis
    using reroute_unknown_name [OF h1 h2, of exEnv PerIteration "[]" "exWorld [''local'', ''fd-b'']"] h2
    by (simp add: ex_defs)
qed

text \<open>
  C2. With no named target and no candidate, \<^verbatim>\<open>closestNode\<close> returns nil and the handler
  panics on \<^verbatim>\<open>node.ID\<close>: no body is written, and the state is left as it was.
\<close>

theorem reroute_no_candidate_panics:
  "rerouteHandler E rv config order [] (w\<lparr>candidateNodes := Map.empty\<rparr>) =
     (Panic, w\<lparr>candidateNodes := Map.empty\<rparr>)"
  by (simp add: rerouteHandler_def closestNode_def rangeOf_empty)

subsection \<open>A second setReroute\<close>

text \<open>
  C5 as stated fails: after a first call that rerouted, the same call again returns an error,
  because the interface \<^verbatim>\<open>local\<close> that it deletes first is gone.
\<close>

theorem setReroute_twice_counterexample:
  "setReroute exEnv True (Prefixes exConfig) ''172.17.104.2'' ''fd00::2''
     (exWorld [''local'', ''fd-b'']) = (None, exRerouted) \<and>
   fst (setReroute exEnv True (Prefixes exConfig) ''172.17.104.2'' ''fd00::2'' exRerouted) =
     Some ''no such device''"
  by (simp add: ex_enter) (simp add: ex_defs exRerouted_def)

lemma sim_call_add:
  assumes "call (sim pc pa) (OpRouteAdd r) w = (e, w')"
  shows "links (kernel w') = links (kernel w) \<and> refused (kernel w') = refused (kernel w) \<and>
         metricIsRerouting w' = metricIsRerouting w"
  using assms by (auto simp: call_def sim_def simRouteAdd_def split: if_splits)

lemma sim_addRoute_keeps:
  assumes "addRoute (sim pc pa) p n4 n6 w = (e, w')"
  shows "links (kernel w') = links (kernel w) \<and> refused (kernel w') = refused (kernel w) \<and>
         metricIsRerouting w' = metricIsRerouting w"
proof (cases "ParseCIDR (sim pc pa) p")
  case (Inl err)
  with assms show ?thesis by (simp add: addRoute_def)
next
  case (Inr n)
  with assms show ?thesis by (auto simp: addRoute_def Let_def dest: sim_call_add)
qed

lemma sim_addRoutes_keeps:
  "addRoutes (sim pc pa) ps n4 n6 w = (e, w') \<Longrightarrow>
   links (kernel w') = links (kernel w) \<and> refused (kernel w') = refused (kernel w) \<and>
   metricIsRerouting w' = metricIsRerouting w"
proof (induction ps arbitrary: w)
  case Nil
  then show ?case by simp
next
  case (Cons p ps)
  obtain r1 w1 where step: "addRoute (sim pc pa) p n4 n6 w = (r1, w1)"
    by (cases "addRoute (sim pc pa) p n4 n6 w")
  note keep = sim_addRoute_keeps [OF step]
  show ?case
  proof (cases r1)
    case (Some err)
    with Cons.prems step have "w' = w1" by simp
    with keep show ?thesis by simp
  next
    case None
    with Cons.prems step have "addRoutes (sim pc pa) ps n4 n6 w1 = (e, w')" by simp
    from Cons.IH [OF this] keep show ?thesis by simp
  qed
qed

lemma sim_disable:
  assumes "setPFNet (sim pc pa) False w = (r, w1)"
  shows "localGone w1 \<and> metricIsRerouting w1 = metricIsRerouting w"
  using assms
  by (auto simp: setPFNet_def call_def sim_def simLinkDel_def localGone_def split: if_splits)

lemma sim_enter_localGone:
  assumes "setReroute (sim pc pa) True ps n4 n6 w = (r, w1)"
  shows "localGone w1 \<and> metricIsRerouting w1 = 1"
proof -
  obtain r0 w0 where pf: "setPFNet (sim pc pa) False (w\<lparr>metricIsRerouting := 1\<rparr>) = (r0, w0)"
    by (cases "setPFNet (sim pc pa) False (w\<lparr>metricIsRerouting := 1\<rparr>)")
  from sim_disable [OF pf] have g0: "localGone w0" "metricIsRerouting w0 = 1" by simp_all
  show ?thesis
  proof (cases r0)
    case (Some err)
    with assms pf have "w1 = w0" by (simp add: setReroute_def)
    with g0 show ?thesis by simp
  next
    case None
    with assms pf have "addRoutes (sim pc pa) ps n4 n6 w0 = (r, w1)" by (simp add: setReroute_def)
    from sim_addRoutes_keeps [OF this] g0 show ?thesis by (simp add: localGone_def)
  qed
qed

lemma sim_enter_again:
  assumes "localGone w1" and "metricIsRerouting w1 = 1"
  shows "\<exists>err. setReroute (sim pc pa) True ps n4 n6 w1 =
           (Some err, w1\<lparr>syscalls := syscalls w1 @ [(OpLinkDel ''local'', Some err)]\<rparr>)"
proof -
  have same: "w1\<lparr>metricIsRerouting := 1\<rparr> = w1" using assms(2) by simp
  show ?thesis
    using assms(1) unfolding setReroute_def same
    by (auto simp: setPFNet_def call_def sim_def simLinkDel_def localGone_def)
qed

text \<open>
  C5, as amended. On a system where deleting an absent interface fails, a second
  \<^verbatim>\<open>setReroute\<close> towards the same peer, right after the first, always returns an error,
  and it leaves everything as the first call left it: interfaces, routing table (so no route
  is entered twice) and gauges. The one request it issues is the failed removal of
  \<^verbatim>\<open>local\<close>.
\<close>

theorem setReroute_twice_same_state_but_error:
  "\<exists>err. setReroute (sim parseCIDR parseIP) True prefixes nexthop4 nexthop6
            (snd (setReroute (sim parseCIDR parseIP) True prefixes nexthop4 nexthop6 w)) =
          (Some err,
           (snd (setReroute (sim parseCIDR parseIP) True prefixes nexthop4 nexthop6 w))
             \<lparr>syscalls :=
                syscalls (snd (setReroute (sim parseCIDR parseIP) True prefixes nexthop4 nexthop6 w))
                @ [(OpLinkDel ''local'', Some err)]\<rparr>)"
proof -
  obtain r w1 where first: "setReroute (sim parseCIDR parseIP) True prefixes nexthop4 nexthop6 w = (r, w1)"
    by (cases "setReroute (sim parseCIDR parseIP) True prefixes nexthop4 nexthop6 w")
  from sim_enter_localGone [OF first] have "localGone w1" "metricIsRerouting w1 = 1" by simp_all
  from sim_enter_again [OF this] first show ?thesis by simp
qed

theorem setReroute_twice_same_state_but_error_witness:
  "\<exists>err. setReroute exEnv True (Prefixes exConfig) ''172.17.104.2'' ''fd00::2''
            (snd (setReroute exEnv True (Prefixes exConfig) ''172.17.104.2'' ''fd00::2''
                    (exWorld [''local'', ''fd-b'']))) =
          (Some err,
           (snd (setReroute exEnv True (Prefixes exConfig) ''172.17.104.2'' ''fd00::2''
                   (exWorld [''local'', ''fd-b''])))
             \<lparr>syscalls :=
                syscalls (snd (setReroute exEnv True (Prefixes exConfig) ''172.17.104.2'' ''fd00::2''
                                 (exWorld [''local'', ''fd-b''])))
                @ [(OpLinkDel ''local'', Some err)]\<rparr>)"
  unfolding exEnv_def
  by (rule setReroute_twice_same_state_but_error
        [of exCIDR exIP "Prefixes exConfig" "''172.17.104.2''" "''fd00::2''"
            "exWorld [''local'', ''fd-b'']"])

subsection \<open>teardownGRE\<close>

text \<open>
  C8 as stated fails: when the first tunnel cannot be deleted, the teardown returns that error
  at once, and the deletion of the second tunnel is not attempted.
\<close>

theorem teardown_aborts_counterexample:
  "fst (teardownGRE exEnv exStuck) = Some ''operation not permitted'' \<and>
   links (kernel (snd (teardownGRE exEnv exStuck))) = [''fd-b'', ''eth0'', ''fd-c''] \<and>
   syscalls (snd (teardownGRE exEnv exStuck)) =
     [(OpLinkDel ''fd-b'', Some ''operation not permitted'')]"
  by (simp add: teardownGRE_def exStuck_def HasPrefix_def ex_defs)

lemma call_logs: "call E op w = (e, w') \<Longrightarrow> logs w' = logs w"
  by (auto simp: call_def split: prod.splits)

lemma delLinks_none:
  "filter isTunnel ifaces = [] \<Longrightarrow> delLinks E ifaces w = (None, w)"
  by (induction ifaces) (auto simp: isTunnel_def split: if_splits)

lemma delLinks_trace:
  "delLinks E ifaces w = (r, w') \<Longrightarrow>
   logs w' = logs w \<and>
   (r = None \<longrightarrow>
      syscalls w' = syscalls w @ map (\<lambda>n. (OpLinkDel n, None)) (filter isTunnel ifaces)) \<and>
   (\<forall>err. r = Some err \<longrightarrow>
      (\<exists>pre iface post. ifaces = pre @ iface # post \<and> isTunnel iface \<and>
         syscalls w' = syscalls w @ map (\<lambda>n. (OpLinkDel n, None)) (filter isTunnel pre)
                         @ [(OpLinkDel iface, Some err)]))"
proof (induction ifaces arbitrary: w)
  case Nil
  then show ?case by simp
next
  case (Cons a ifaces)
  show ?case
  proof (cases "isTunnel a")
    case False
    with Cons.prems have rest: "delLinks E ifaces w = (r, w')" by (simp add: isTunnel_def)
    note ih = Cons.IH [OF rest]
    have "\<forall>err. r = Some err \<longrightarrow>
      (\<exists>pre iface post. a # ifaces = pre @ iface # post \<and> isTunnel iface \<and>
         syscalls w' = syscalls w @ map (\<lambda>n. (OpLinkDel n, None)) (filter isTunnel pre)
                         @ [(OpLinkDel iface, Some err)])"
    proof (intro allI impI)
      fix err assume "r = Some err"
      with ih obtain pre iface post where d: "ifaces = pre @ iface # post" "isTunnel iface"
        "syscalls w' = syscalls w @ map (\<lambda>n. (OpLinkDel n, None)) (filter isTunnel pre)
                         @ [(OpLinkDel iface, Some err)]" by blast
      have "a # ifaces = (a # pre) @ iface # post" using d(1) by simp
      moreover have "syscalls w' = syscalls w @
          map (\<lambda>n. (OpLinkDel n, None)) (filter isTunnel (a # pre)) @ [(OpLinkDel iface, Some err)]"
        using d(3) False by simp
      ultimately show "\<exists>pre iface post. a # ifaces = pre @ iface # post \<and> isTunnel iface \<and>
         syscalls w' = syscalls w @ map (\<lambda>n. (OpLinkDel n, None)) (filter isTunnel pre)
                         @ [(OpLinkDel iface, Some err)]" using d(2) by blast
    qed
    with ih False show ?thesis by simp
  next
    case True
    obtain r1 w1 where step: "call E (OpLinkDel a) w = (r1, w1)"
      by (cases "call E (OpLinkDel a) w")
    note s1 = call_syscalls [OF step] and l1 = call_logs [OF step]
    show ?thesis
    proof (cases r1)
      case (Some e1)
      with Cons.prems True step have res: "r = Some e1" "w' = w1" by (simp_all add: isTunnel_def)
      have "a # ifaces = [] @ a # ifaces" by simp
      moreover have "syscalls w' = syscalls w @
          map (\<lambda>n. (OpLinkDel n, None)) (filter isTunnel []) @ [(OpLinkDel a, Some e1)]"
        using s1 res Some by simp
      ultimately have "\<exists>pre iface post. a # ifaces = pre @ iface # post \<and> isTunnel iface \<and>
         syscalls w' = syscalls w @ map (\<lambda>n. (OpLinkDel n, None)) (filter isTunnel pre)
                         @ [(OpLinkDel iface, Some e1)]" using True by blast
      with res l1 show ?thesis by simp
    next
      case None
      with Cons.prems True step have rest: "delLinks E ifaces w1 = (r, w')" by (simp add: isTunnel_def)
      note ih = Cons.IH [OF rest]
      have "\<forall>err. r = Some err \<longrightarrow>
        (\<exists>pre iface post. a # ifaces = pre @ iface # post \<and> isTunnel iface \<and>
           syscalls w' = syscalls w @ map (\<lambda>n. (OpLinkDel n, None)) (filter isTunnel pre)
                           @ [(OpLinkDel iface, Some err)])"
      proof (intro allI impI)
        fix err assume "r = Some err"
        with ih obtain pre iface post where d: "ifaces = pre @ iface # post" "isTunnel iface"
          "syscalls w' = syscalls w1 @ map (\<lambda>n. (OpLinkDel n, None)) (filter isTunnel pre)
                           @ [(OpLinkDel iface, Some err)]" by blast
        have "a # ifaces = (a # pre) @ iface # post" using d(1) by simp
        moreover have "syscalls w' = syscalls w @
            map (\<lambda>n. (OpLinkDel n, None)) (filter isTunnel (a # pre)) @ [(OpLinkDel iface, Some err)]"
          using d(3) True s1 None by simp
        ultimately show "\<exists>pre iface post. a # ifaces = pre @ iface # post \<and> isTunnel iface \<and>
           syscalls w' = syscalls w @ map (\<lambda>n. (OpLinkDel n, None)) (filter isTunnel pre)
                           @ [(OpLinkDel iface, Some err)]" using d(2) by blast
      qed
      with ih True s1 l1 None show ?thesis by simp
    qed
  qed
qed

text \<open>
  C8, as amended. With no matching interface the teardown returns no error and changes nothing.
  Otherwise it deletes the matching interfaces in the order of the list and stops at the first
  deletion that fails: it returns that error, which \<^verbatim>\<open>main\<close> logs, and issues no request
  for the interfaces after it. When it returns no error it has deleted every matching interface.
\<close>

theorem teardown_stops_at_first_failure:
  assumes "LinkList E (kernel w) = Inr ifaces" and "teardownGRE E w = (r, w')"
  shows "(filter isTunnel ifaces = [] \<longrightarrow> r = None \<and> w' = w) \<and>
         (r = None \<longrightarrow>
            syscalls w' = syscalls w @ map (\<lambda>n. (OpLinkDel n, None)) (filter isTunnel ifaces)) \<and>
         (\<forall>err. r = Some err \<longrightarrow>
            (\<exists>pre iface post. ifaces = pre @ iface # post \<and> isTunnel iface \<and>
               syscalls w' = syscalls w @ map (\<lambda>n. (OpLinkDel n, None)) (filter isTunnel pre)
                               @ [(OpLinkDel iface, Some err)]) \<and>
            logs (mainTeardown E w) = logs w @ [(Error, ''Error tearing down interfaces: '' @ err)])"
proof -
  from assms have run: "delLinks E ifaces w = (r, w')" by (simp add: teardownGRE_def)
  note tr = delLinks_trace [OF run]
  have none: "filter isTunnel ifaces = [] \<longrightarrow> r = None \<and> w' = w"
    using delLinks_none [of ifaces E w] run by auto
  have logged: "\<forall>err. r = Some err \<longrightarrow>
      logs (mainTeardown E w) = logs w @ [(Error, ''Error tearing down interfaces: '' @ err)]"
    using assms(2) tr by (auto simp: mainTeardown_def)
  from none tr logged show ?thesis by blast
qed

theorem teardown_stops_at_first_failure_witness:
  "LinkList exEnv (kernel exStuck) = Inr [''fd-b'', ''eth0'', ''fd-c''] \<and>
   teardownGRE exEnv exStuck =
     (Some ''operation not permitted'', snd (teardownGRE exEnv exStuck)) \<and>
   (\<exists>pre iface post. [''fd-b'', ''eth0'', ''fd-c''] = pre @ iface # post \<and> isTunnel iface \<and>
      syscalls (snd (teardownGRE exEnv exStuck)) =
        syscalls exStuck @ map (\<lambda>n. (OpLinkDel n, None)) (filter isTunnel pre)
          @ [(OpLinkDel iface, Some ''operation not permitted'')]) \<and>
   logs (mainTeardown exEnv exStuck) =
     logs exStuck @ [(Error, ''Error tearing down interfaces: operation not permitted'')]"
proof -
  have h1: "LinkList exEnv (kernel exStuck) = Inr [''fd-b'', ''eth0'', ''fd-c'']"
    by (simp add: exEnv_def sim_def exStuck_def)
  have "fst (teardownGRE exEnv exStuck) = Some ''operation not permitted''"
    by (simp add: teardownGRE_def exStuck_def HasPrefix_def ex_defs)
  then have h2: "teardownGRE exEnv exStuck =
     (Some ''operation not permitted'', snd (teardownGRE exEnv exStuck))"
    by (metis prod.collapse)
  from teardown_stops_at_first_failure [OF h1 h2] h1 h2 show ?thesis by simp
qed

subsection \<open>The probe loop\<close>

text \<open>
  C1. A tick in which the pinger fails for every peer. The error is logged, but the loop goes
  on with the zero latency and zero loss that \<^verbatim>\<open>icmpLatency\<close> returns beside the error:
  peer b, a candidate at 40 ms, is stored again with latency 0, and peer c, no candidate before,
  becomes one with latency 0.
\<close>

theorem probe_error_zeroes_sample:
  "candidateNodes exProbed ''b'' = Some \<lparr>ID = 2, IP = ''198.51.100.2'', Latency = 40 * Millisecond\<rparr> \<and>
   candidateNodes exProbed ''c'' = None \<and>
   candidateNodes (tick exPingFails exConfig ''a'' [''a'', ''b'', ''c''] exProbed) ''b'' =
     Some \<lparr>ID = 2, IP = ''198.51.100.2'', Latency = 0\<rparr> \<and>
   candidateNodes (tick exPingFails exConfig ''a'' [''a'', ''b'', ''c''] exProbed) ''c'' =
     Some \<lparr>ID = 3, IP = ''198.51.100.3'', Latency = 0\<rparr> \<and>
   metricCandidateNodes (tick exPingFails exConfig ''a'' [''a'', ''b'', ''c''] exProbed) = 2 \<and>
   logs (tick exPingFails exConfig ''a'' [''a'', ''b'', ''c''] exProbed) =
     [(Warn, ''Error pinging b: socket: permission denied''),
      (Warn, ''Error pinging c: socket: permission denied'')]"
  by (simp add: tick_def rangeOf_def probeNode_def icmpLatency_def exPingFails_def exProbed_def
      exWorld_def exConfig_def Millisecond_def Let_def)

text \<open>
  C6 as stated fails: when the pinger got no reply and reports a loss of 100, as
  \<^verbatim>\<open>go-ping\<close> does, \<^verbatim>\<open>icmpLatency\<close> returns the loss 100, not 1.
\<close>

theorem probe_silent_counterexample:
  "Run exPingSilent \<lparr>Addr = ''172.17.104.2'', Source = ''172.17.104.1'', Count = 3,
                       Timeout = 500 * Millisecond, Privileged = False\<rparr> =
     Inr \<lparr>PacketsRecv = 0, PacketLoss = 100, AvgRtt = 0\<rparr> \<and>
   icmpLatency exPingSilent ''172.17.104.1'' ''172.17.104.2'' = (0, 100, None)"
  by (simp add: icmpLatency_def exPingSilent_def)

text \<open>
  C6, as amended. When the pinger runs without error, \<^verbatim>\<open>icmpLatency\<close> returns the
  average round-trip time and the packet loss of its statistics as they are, with no error,
  whatever the number of replies. The probe loop logs nothing and treats the result as any other
  sample: the peer is a candidate if and only if the values are within the thresholds, and the
  latency gauge is set to the average.
\<close>

theorem icmpLatency_forwards_statistics:
  assumes "NewPinger P (internalIP (Prefix4 config) (ID node) 0) = None"
    and "Run P \<lparr>Addr = internalIP (Prefix4 config) (ID node) 0,
                 Source = internalIP (Prefix4 config) (LocalID config) 0,
                 Count = 3, Timeout = 500 * Millisecond, Privileged = False\<rparr> = Inr stats"
    and "ID node \<noteq> LocalID config"
  shows "icmpLatency P (internalIP (Prefix4 config) (LocalID config) 0)
           (internalIP (Prefix4 config) (ID node) 0) = (AvgRtt stats, PacketLoss stats, None) \<and>
         logs (probeNode P config localNodeName name node w) = logs w \<and>
         candidateNodes (probeNode P config localNodeName name node w) =
           (if AvgRtt stats \<le> LatencyThreshold config \<and> PacketLoss stats < LossThreshold config
            then (candidateNodes w)(name \<mapsto> node\<lparr>Latency := AvgRtt stats\<rparr>)
            else (candidateNodes w)(name := None)) \<and>
         metricNodeLatency (probeNode P config localNodeName name node w) (localNodeName, name) =
           Some (Seconds (AvgRtt stats))"
proof -
  have run: "icmpLatency P (internalIP (Prefix4 config) (LocalID config) 0)
      (internalIP (Prefix4 config) (ID node) 0) = (AvgRtt stats, PacketLoss stats, None)"
    using assms(1,2) by (simp add: icmpLatency_def)
  show ?thesis using assms(3) by (simp add: probeNode_def run Let_def)
qed

lemma ex_addresses:
  "internalIP (Prefix4 exConfig) (LocalID exConfig) 0 = ''172.17.104.1''"
  "internalIP (Prefix4 exConfig) 2 0 = ''172.17.104.2''"
  by (simp_all add: internalIP_def exConfig_def dec.simps)

theorem icmpLatency_forwards_statistics_witness:
  "NewPinger exPingSilent (internalIP (Prefix4 exConfig) 2 0) = None \<and>
   Run exPingSilent \<lparr>Addr = internalIP (Prefix4 exConfig) 2 0,
                      Source = internalIP (Prefix4 exConfig) (LocalID exConfig) 0,
                      Count = 3, Timeout = 500 * Millisecond, Privileged = False\<rparr> =
     Inr \<lparr>PacketsRecv = 0, PacketLoss = 100, AvgRtt = 0\<rparr> \<and>
   (2 :: 8 word) \<noteq> LocalID exConfig \<and>
   icmpLatency exPingSilent ''172.17.104.1'' ''172.17.104.2'' = (0, 100, None) \<and>
   logs (probeNode exPingSilent exConfig ''a'' ''b''
           \<lparr>ID = 2, IP = ''198.51.100.2'', Latency = 0\<rparr> exProbed) = [] \<and>
   candidateNodes (probeNode exPingSilent exConfig ''a'' ''b''
           \<lparr>ID = 2, IP = ''198.51.100.2'', Latency = 0\<rparr> exProbed) ''b'' = None"
proof -
  let ?node = "\<lparr>ID = 2, IP = ''198.51.100.2'', Latency = 0\<rparr>"
  have h1: "NewPinger exPingSilent (internalIP (Prefix4 exConfig) (ID ?node) 0) = None"
    by (simp add: exPingSilent_def)
  have h2: "Run exPingSilent \<lparr>Addr = internalIP (Prefix4 exConfig) (ID ?node) 0,
                      Source = internalIP (Prefix4 exConfig) (LocalID exConfig) 0,
                      Count = 3, Timeout = 500 * Millisecond, Privileged = False\<rparr> =
     Inr \<lparr>PacketsRecv = 0, PacketLoss = 100, AvgRtt = 0\<rparr>" by (simp add: exPingSilent_def)
  have h3: "ID ?node \<noteq> LocalID exConfig" by (simp add: exConfig_def)
  from icmpLatency_forwards_statistics [OF h1 h2 h3, of "''a''" "''b''" exProbed] h1 h2 h3
  show ?thesis by (simp add: ex_addresses) (simp add: exConfig_def exProbed_def exWorld_def)
qed

end
